theory Spec2Isabelle
  imports Main "HOL-Library.AList"
begin

section \<open>Contact book: fields, records and the address book\<close>

text \<open>
  The program is a Python contact book (\<^verbatim>\<open>src/main.py\<close>). Python strings are modelled
  as \<^typ>\<open>string\<close>, one \<^typ>\<open>char\<close> per code point, which covers the code points
  0 to 255 (Latin-1); Python integers are \<^typ>\<open>int\<close>. Exceptions are values of the
  type \<open>error\<close>; an operation that can raise returns \<open>error + 'a\<close>, and one that
  mutates the address book also returns the book as it is left behind, whether it
  raised or not.
\<close>

datatype error =
    ValidationException string
  | KeyError string
  | ValueError
  | OverflowError

subsection \<open>Character classes of \<^verbatim>\<open>str.isalpha\<close> and \<^verbatim>\<open>str.isdigit\<close>\<close>

text \<open>
  \<^verbatim>\<open>str.isalpha\<close> holds of the code points of the Unicode categories L*, and
  \<^verbatim>\<open>str.isdigit\<close> of those with the property Numeric_Type Digit or Decimal. Below
  256 these are the ranges listed here. Both methods are false on the empty string.
\<close>

definition isalpha_char :: "char \<Rightarrow> bool" where
  "isalpha_char c =
     (let n = (of_char c :: nat) in
        (65 \<le> n \<and> n \<le> 90) \<or> (97 \<le> n \<and> n \<le> 122) \<or> n = 170 \<or> n = 181 \<or> n = 186 \<or>
        (192 \<le> n \<and> n \<le> 214) \<or> (216 \<le> n \<and> n \<le> 246) \<or> (248 \<le> n \<and> n \<le> 255))"

definition isdigit_char :: "char \<Rightarrow> bool" where
  "isdigit_char c =
     (let n = (of_char c :: nat) in
        (48 \<le> n \<and> n \<le> 57) \<or> n = 178 \<or> n = 179 \<or> n = 185)"

definition isalpha :: "string \<Rightarrow> bool" where
  "isalpha s = (s \<noteq> [] \<and> list_all isalpha_char s)"

definition isdigit :: "string \<Rightarrow> bool" where
  "isdigit s = (s \<noteq> [] \<and> list_all isdigit_char s)"

subsection \<open>Fields\<close>

text \<open>
  \<^verbatim>\<open>Name.__init__\<close> and \<^verbatim>\<open>Phone.__init__\<close> store the value and then validate it; when
  the validation raises, no object is returned, so the model returns the value only on
  success.
\<close>

definition validate_name :: "string \<Rightarrow> error + unit" where
  "validate_name v =
     (if \<not> isalpha v then Inl (ValidationException ''Name must contain only letters'')
      else Inr ())"

definition Name :: "string \<Rightarrow> error + string" where
  "Name v = (case validate_name v of Inl e \<Rightarrow> Inl e | Inr _ \<Rightarrow> Inr v)"

definition validate_phone :: "string \<Rightarrow> error + unit" where
  "validate_phone v =
     (if \<not> isdigit v \<or> length v \<noteq> 10 then Inl (ValidationException ''Phone number must be 10 digits'')
      else Inr ())"

definition Phone :: "string \<Rightarrow> error + string" where
  "Phone v = (case validate_phone v of Inl e \<Rightarrow> Inl e | Inr _ \<Rightarrow> Inr v)"

subsection \<open>Calendar dates\<close>

text \<open>
  \<^verbatim>\<open>datetime.date\<close> of the Python standard library: a proleptic Gregorian date with
  \<^verbatim>\<open>MINYEAR = 1\<close> and \<^verbatim>\<open>MAXYEAR = 9999\<close>. The constructor (and so
  \<^verbatim>\<open>replace\<close>) raises \<^verbatim>\<open>ValueError\<close> unless the fields are in range;
  \<^verbatim>\<open>toordinal\<close> counts days from 0001-01-01 as day 1; \<^verbatim>\<open>weekday\<close> is 0 for Monday
  to 6 for Sunday; the difference of two dates is the difference of their ordinals.
\<close>

record date =
  year :: int
  month :: int
  day :: int

definition is_leap :: "int \<Rightarrow> bool" where
  "is_leap y = (y mod 4 = 0 \<and> (y mod 100 \<noteq> 0 \<or> y mod 400 = 0))"

definition DAYS_IN_MONTH :: "int list" where
  "DAYS_IN_MONTH = [-1, 31, 28, 31, 30, 31, 30, 31, 31, 30, 31, 30, 31]"

definition DAYS_BEFORE_MONTH :: "int list" where
  "DAYS_BEFORE_MONTH = [-1, 0, 31, 59, 90, 120, 151, 181, 212, 243, 273, 304, 334]"

definition days_before_year :: "int \<Rightarrow> int" where
  "days_before_year y = (let y1 = y - 1 in y1 * 365 + y1 div 4 - y1 div 100 + y1 div 400)"

definition days_in_month :: "int \<Rightarrow> int \<Rightarrow> int" where
  "days_in_month y m = (if m = 2 \<and> is_leap y then 29 else DAYS_IN_MONTH ! nat m)"

definition days_before_month :: "int \<Rightarrow> int \<Rightarrow> int" where
  "days_before_month y m = DAYS_BEFORE_MONTH ! nat m + (if m > 2 \<and> is_leap y then 1 else 0)"

definition check_date_fields :: "int \<Rightarrow> int \<Rightarrow> int \<Rightarrow> bool" where
  "check_date_fields y m d =
     (1 \<le> y \<and> y \<le> 9999 \<and> 1 \<le> m \<and> m \<le> 12 \<and> 1 \<le> d \<and> d \<le> days_in_month y m)"

definition valid_date :: "date \<Rightarrow> bool" where
  "valid_date d = check_date_fields (year d) (month d) (day d)"

definition replace_year :: "date \<Rightarrow> int \<Rightarrow> error + date" where
  "replace_year d y =
     (if check_date_fields y (month d) (day d) then Inr \<lparr>year = y, month = month d, day = day d\<rparr>
      else Inl ValueError)"

definition toordinal :: "date \<Rightarrow> int" where
  "toordinal d = days_before_year (year d) + days_before_month (year d) (month d) + day d"

definition weekday :: "date \<Rightarrow> int" where
  "weekday d = (toordinal d + 6) mod 7"

definition date_less :: "date \<Rightarrow> date \<Rightarrow> bool" where
  "date_less a b =
     (year a < year b \<or> (year a = year b \<and>
        (month a < month b \<or> (month a = month b \<and> day a < day b))))"

definition days_between :: "date \<Rightarrow> date \<Rightarrow> int" where
  "days_between a b = toordinal a - toordinal b"

text \<open>
  Adding \<^verbatim>\<open>timedelta(days=n)\<close> for a natural number \<open>n\<close> moves a date \<open>n\<close> days
  forward and raises \<^verbatim>\<open>OverflowError\<close> when the result would lie after 9999-12-31.
  It is modelled as \<open>n\<close> steps to the next calendar day.
\<close>

definition tomorrow :: "date \<Rightarrow> error + date" where
  "tomorrow d =
     (if day d < days_in_month (year d) (month d) then Inr (d\<lparr>day := day d + 1\<rparr>)
      else if month d < 12 then Inr \<lparr>year = year d, month = month d + 1, day = 1\<rparr>
      else if year d < 9999 then Inr \<lparr>year = year d + 1, month = 1, day = 1\<rparr>
      else Inl OverflowError)"

primrec add_days :: "date \<Rightarrow> nat \<Rightarrow> error + date" where
  "add_days d 0 = Inr d"
| "add_days d (Suc n) = (case tomorrow d of Inl e \<Rightarrow> Inl e | Inr d' \<Rightarrow> add_days d' n)"

text \<open>
  \<^verbatim>\<open>strftime\<close> with the directives \<^verbatim>\<open>%d\<close>, \<^verbatim>\<open>%m\<close> (two digits, zero-padded) and
  \<^verbatim>\<open>%Y\<close>, for the fields of a date in range. \<^verbatim>\<open>%Y\<close> is the year in decimal as the C
  library prints it, without padding: 999 and not 0999.
\<close>

definition digit :: "int \<Rightarrow> char" where
  "digit n = char_of (48 + nat (n mod 10))"

definition zfill2 :: "int \<Rightarrow> string" where
  "zfill2 n = [digit (n div 10), digit n]"

definition strftime_Y :: "int \<Rightarrow> string" where
  "strftime_Y y =
     (if y < 10 then [digit y]
      else if y < 100 then [digit (y div 10), digit y]
      else if y < 1000 then [digit (y div 100), digit (y div 10), digit y]
      else [digit (y div 1000), digit (y div 100), digit (y div 10), digit y])"

definition strftime_dmY :: "date \<Rightarrow> string" where
  "strftime_dmY d = zfill2 (day d) @ ''.'' @ zfill2 (month d) @ ''.'' @ strftime_Y (year d)"

definition strftime_Ymd :: "date \<Rightarrow> string" where
  "strftime_Ymd d = strftime_Y (year d) @ ''.'' @ zfill2 (month d) @ ''.'' @ zfill2 (day d)"

subsection \<open>Records\<close>

text \<open>
  A \<^verbatim>\<open>Record\<close> holds the value of its \<^verbatim>\<open>Name\<close>, the values of its \<^verbatim>\<open>Phone\<close> objects in
  list order, and the date of its \<^verbatim>\<open>Birthday\<close> when one is set (\<^verbatim>\<open>Birthday.__init__\<close>
  takes the date from \<^verbatim>\<open>strptime\<close>, so it is a date in range). Every \<^verbatim>\<open>Phone\<close> object is
  created by \<^verbatim>\<open>add_phone\<close> and held by one list only, so the objects are not shared and
  the list of their values is the whole state.
\<close>

record record_t =
  name :: string
  phones :: "string list"
  birthday :: "date option"

definition Record :: "string \<Rightarrow> error + record_t" where
  "Record n =
     (case Name n of
        Inl e \<Rightarrow> Inl e
      | Inr v \<Rightarrow> Inr \<lparr>name = v, phones = [], birthday = None\<rparr>)"

definition add_phone :: "record_t \<Rightarrow> string \<Rightarrow> error + record_t" where
  "add_phone r phone =
     (case Phone phone of
        Inl e \<Rightarrow> Inl e
      | Inr p \<Rightarrow> Inr (r\<lparr>phones := phones r @ [p]\<rparr>))"

text \<open>
  \<^verbatim>\<open>edit_phone\<close> walks the whole list (the loop has no \<^verbatim>\<open>break\<close>) and assigns
  \<^verbatim>\<open>new_phone\<close> to the value of each phone that equals \<^verbatim>\<open>old_phone\<close> when it is visited.
  The assignment goes to the attribute directly, not through \<^verbatim>\<open>Phone(...)\<close>.
\<close>

fun edit_phone_loop :: "string \<Rightarrow> string \<Rightarrow> string list \<Rightarrow> string list" where
  "edit_phone_loop old_phone new_phone [] = []"
| "edit_phone_loop old_phone new_phone (p # ps) =
     (if p = old_phone then new_phone # edit_phone_loop old_phone new_phone ps
      else p # edit_phone_loop old_phone new_phone ps)"

definition edit_phone :: "record_t \<Rightarrow> string \<Rightarrow> string \<Rightarrow> record_t" where
  "edit_phone r old_phone new_phone =
     r\<lparr>phones := edit_phone_loop old_phone new_phone (phones r)\<rparr>"

fun find_phone :: "string list \<Rightarrow> string \<Rightarrow> string option" where
  "find_phone [] phone = None"
| "find_phone (p # ps) phone = (if p = phone then Some p else find_phone ps phone)"

subsection \<open>The address book\<close>

text \<open>
  \<^verbatim>\<open>AddressBook\<close> is a \<^verbatim>\<open>UserDict\<close>: a dictionary from names to records that keeps
  insertion order. It is an association list with distinct keys; assigning to a key
  that is present keeps its place, assigning to a new key appends
  (\<^const>\<open>AList.update\<close>). A record is held by reference, so a method that mutates a record
  found under a key is modelled by storing the mutated record under that key.
\<close>

type_synonym address_book = "(string \<times> record_t) list"

definition add_record :: "address_book \<Rightarrow> record_t \<Rightarrow> address_book" where
  "add_record book r = AList.update (name r) r book"

definition find :: "address_book \<Rightarrow> string \<Rightarrow> record_t option" where
  "find book n = map_of book n"

definition delete :: "address_book \<Rightarrow> string \<Rightarrow> (error + unit) \<times> address_book" where
  "delete book n =
     (case map_of book n of
        None \<Rightarrow> (Inl (KeyError n), book)
      | Some _ \<Rightarrow> (Inr (), AList.delete n book))"

text \<open>
  \<^verbatim>\<open>add_contact\<close>: the optional \<^verbatim>\<open>phone\<close> is \<open>None\<close> when the argument is left out; the
  test \<^verbatim>\<open>if phone:\<close> is false for \<^verbatim>\<open>None\<close> and for the empty string.
\<close>

definition add_contact ::
  "address_book \<Rightarrow> string \<Rightarrow> string option \<Rightarrow> (error + string) \<times> address_book" where
  "add_contact book n phone =
     (case (case find book n of
              None \<Rightarrow>
                (case Record n of
                   Inl e \<Rightarrow> Inl e
                 | Inr r \<Rightarrow> Inr (r, add_record book r, ''Contact added.''))
            | Some r \<Rightarrow> Inr (r, book, ''Contact updated.'')) of
        Inl e \<Rightarrow> (Inl e, book)
      | Inr (r, book1, message) \<Rightarrow>
          (if phone \<noteq> None \<and> phone \<noteq> Some [] then
             (case add_phone r (the phone) of
                Inl e \<Rightarrow> (Inl e, book1)
              | Inr r' \<Rightarrow> (Inr message, AList.update n r' book1))
           else (Inr message, book1)))"

text \<open>
  \<^verbatim>\<open>get_upcoming_birthdays\<close>, with \<^verbatim>\<open>datetime.now().date()\<close> as the argument \<open>today\<close>.
  The body of the loop is split where the source has its comments: the occurrence of
  the birthday that is tested (\<^verbatim>\<open>this_year_birthday\<close>), the date of congratulation
  (\<^verbatim>\<open>congratulation_date\<close>) and the dictionary that is appended. A \<^verbatim>\<open>Birthday\<close> object
  is always true in a condition, so \<^verbatim>\<open>not record.birthday\<close> tests for \<^verbatim>\<open>None\<close>.
\<close>

definition this_year_birthday :: "date \<Rightarrow> date \<Rightarrow> error + date" where
  "this_year_birthday today b =
     (case replace_year b (year today) of
        Inl e \<Rightarrow> Inl e
      | Inr t \<Rightarrow> if date_less t today then replace_year t (year today + 1) else Inr t)"

definition congratulation_date :: "date \<Rightarrow> error + date" where
  "congratulation_date t =
     (if weekday t = 5 then add_days t 2
      else if weekday t = 6 then add_days t 1
      else Inr t)"

type_synonym entry = "(string \<times> string) list"

definition upcoming_entry :: "record_t \<Rightarrow> date \<Rightarrow> entry" where
  "upcoming_entry r c =
     [(''name'', name r),
      (''birthday'', strftime_dmY c),
      (''congratulation_date'', strftime_Ymd c)]"

fun upcoming_loop :: "date \<Rightarrow> record_t list \<Rightarrow> entry list \<Rightarrow> error + entry list" where
  "upcoming_loop today [] upcoming_birthdays = Inr upcoming_birthdays"
| "upcoming_loop today (r # rs) upcoming_birthdays =
     (case birthday r of
        None \<Rightarrow> upcoming_loop today rs upcoming_birthdays
      | Some b \<Rightarrow>
          (case this_year_birthday today b of
             Inl e \<Rightarrow> Inl e
           | Inr t \<Rightarrow>
               if 0 \<le> days_between t today \<and> days_between t today \<le> 7 then
                 (case congratulation_date t of
                    Inl e \<Rightarrow> Inl e
                  | Inr c \<Rightarrow> upcoming_loop today rs (upcoming_birthdays @ [upcoming_entry r c]))
               else upcoming_loop today rs upcoming_birthdays))"

definition get_upcoming_birthdays :: "date \<Rightarrow> address_book \<Rightarrow> error + entry list" where
  "get_upcoming_birthdays today book = upcoming_loop today (map snd book) []"

definition change_contact ::
  "address_book \<Rightarrow> string \<Rightarrow> string \<Rightarrow> string \<Rightarrow> (error + string) \<times> address_book" where
  "change_contact book n old_phone new_phone =
     (case find book n of
        None \<Rightarrow> (Inl (KeyError ''Contact not found.''), book)
      | Some r \<Rightarrow>
          (Inr ''Phone number updated.'', AList.update n (edit_phone r old_phone new_phone) book))"

text \<open>
  The queries that build text: \<^verbatim>\<open>sep.join(...)\<close>, \<^verbatim>\<open>Record.show_birthday\<close>,
  \<^verbatim>\<open>Record.__str__\<close>, \<^verbatim>\<open>show_phone\<close> and \<^verbatim>\<open>show_all\<close>.
\<close>

fun join :: "string \<Rightarrow> string list \<Rightarrow> string" where
  "join sep [] = []"
| "join sep [x] = x"
| "join sep (x # y # ys) = x @ sep @ join sep (y # ys)"

definition show_birthday :: "record_t \<Rightarrow> string" where
  "show_birthday r =
     (case birthday r of
        Some b \<Rightarrow> strftime_dmY b
      | None \<Rightarrow> ''Birthday not set'')"

definition Record_str :: "record_t \<Rightarrow> string" where
  "Record_str r =
     (let birthday_str = (if birthday r \<noteq> None then '', birthday: '' @ show_birthday r else [])
      in ''Contact name: '' @ name r @ '', phones: '' @ join ''; '' (phones r) @ birthday_str)"

definition show_phone :: "address_book \<Rightarrow> string \<Rightarrow> error + string" where
  "show_phone book n =
     (case find book n of
        None \<Rightarrow> Inl (KeyError ''Contact not found.'')
      | Some r \<Rightarrow> Inr (join ''; '' (phones r)))"

definition show_all :: "address_book \<Rightarrow> string" where
  "show_all book =
     (if book = [] then ''No contacts available.''
      else join [CHR 0x0A] (map (\<lambda>(k, r). Record_str r) book))"

subsection \<open>The invariant of the address book\<close>

text \<open>
  Every key holds a record of that name, and the name passes \<^verbatim>\<open>validate_name\<close>.
\<close>

definition book_inv :: "address_book \<Rightarrow> bool" where
  "book_inv book = list_all (\<lambda>(k, r). name r = k \<and> isalpha (name r)) book"

subsection \<open>The birthday rule as the specification words it\<close>

text \<open>
  The occurrence of a birthday is its month and day in the year of \<open>today\<close>, moved to
  the next year exactly when that date is strictly before \<open>today\<close>; the birthday
  qualifies exactly when the occurrence is between 0 and 7 days after \<open>today\<close>.
\<close>

definition spec_occurrence :: "date \<Rightarrow> date \<Rightarrow> date" where
  "spec_occurrence today b =
     (let t = \<lparr>year = year today, month = month b, day = day b\<rparr>
      in if date_less t today then t\<lparr>year := year today + 1\<rparr> else t)"

definition spec_qualifies :: "date \<Rightarrow> date \<Rightarrow> bool" where
  "spec_qualifies today b =
     (let daysUntil = toordinal (spec_occurrence today b) - toordinal today
      in 0 \<le> daysUntil \<and> daysUntil \<le> 7)"

definition record_qualifies :: "date \<Rightarrow> record_t \<Rightarrow> bool" where
  "record_qualifies today r =
     (case birthday r of None \<Rightarrow> False | Some b \<Rightarrow> spec_qualifies today b)"

section \<open>Lemmas about the address book\<close>

lemma edit_phone_loop_map:
  "edit_phone_loop old_phone new_phone ps = map (\<lambda>p. if p = old_phone then new_phone else p) ps"
  by (induction ps) simp_all

lemma edit_phone_loop_absent:
  "old_phone \<notin> set ps \<Longrightarrow> edit_phone_loop old_phone new_phone ps = ps"
  by (induction ps) auto

lemma update_same: "map_of al k = Some v \<Longrightarrow> AList.update k v al = al"
  by (induction al) (auto split: if_splits)

lemma list_all_update:
  "list_all P al \<Longrightarrow> P (k, v) \<Longrightarrow> list_all P (AList.update k v al)"
  by (induction al) auto

lemma list_all_delete: "list_all P al \<Longrightarrow> list_all P (AList.delete k al)"
  by (induction al) auto

lemma book_inv_find: "book_inv book \<Longrightarrow> find book n = Some r \<Longrightarrow> name r = n \<and> isalpha n"
  unfolding book_inv_def find_def
  by (induction book) (auto split: if_splits)

lemma Record_Inr: "Record n = Inr r \<Longrightarrow> r = \<lparr>name = n, phones = [], birthday = None\<rparr> \<and> isalpha n"
  by (auto simp: Record_def Name_def validate_name_def split: if_splits sum.splits)

lemma Record_valid: "isalpha n \<Longrightarrow> Record n = Inr \<lparr>name = n, phones = [], birthday = None\<rparr>"
  by (simp add: Record_def Name_def validate_name_def)

lemma Record_invalid: "\<not> isalpha n \<Longrightarrow> Record n = Inl (ValidationException ''Name must contain only letters'')"
  by (simp add: Record_def Name_def validate_name_def)

lemma add_phone_name: "add_phone r p = Inr r' \<Longrightarrow> name r' = name r"
  by (auto simp: add_phone_def split: sum.splits)

lemma add_phone_invalid:
  "\<not> isdigit p \<or> length p \<noteq> 10 \<Longrightarrow> add_phone r p = Inl (ValidationException ''Phone number must be 10 digits'')"
  by (auto simp: add_phone_def Phone_def validate_phone_def)

text \<open>
  The address book stays a dictionary: no operation makes a key occur twice.
\<close>

lemma store_keys_distinct:
  assumes "distinct (map fst book)"
  shows "distinct (map fst (add_record book r))"
    and "distinct (map fst (snd (add_contact book n phone)))"
    and "distinct (map fst (snd (change_contact book n old_phone new_phone)))"
    and "distinct (map fst (snd (delete book n)))"
proof -
  show 1: "distinct (map fst (add_record book r))"
    using assms by (simp add: add_record_def distinct_update)
  have "\<And>r. distinct (map fst (add_record book r))"
    using assms by (simp add: add_record_def distinct_update)
  then show "distinct (map fst (snd (add_contact book n phone)))"
    using assms
    by (auto simp: add_contact_def distinct_update split: option.splits sum.splits)
  show "distinct (map fst (snd (change_contact book n old_phone new_phone)))"
    using assms by (simp add: change_contact_def distinct_update split: option.splits)
  show "distinct (map fst (snd (delete book n)))"
    using assms by (simp add: delete_def distinct_delete split: option.splits)
qed

section \<open>Lemmas about the calendar\<close>

subsection \<open>Ordinals of consecutive days\<close>

lemma div_pred:
  assumes "0 < (k::int)"
  shows "(y - 1) div k = y div k - (if y mod k = 0 then 1 else 0)"
proof (cases "y mod k = 0")
  case True
  have "y = k * (y div k) + y mod k" by simp
  with True have "y - 1 = k * (y div k - 1) + (k - 1)" by (simp add: algebra_simps)
  then have "(y - 1) div k = y div k - 1"
    using assms int_div_pos_eq [of "y - 1" k "y div k - 1" "k - 1"] by simp
  with True show ?thesis by simp
next
  case False
  have r: "0 \<le> y mod k" "y mod k < k" using assms by simp_all
  have "y = k * (y div k) + y mod k" by simp
  then have "y - 1 = k * (y div k) + (y mod k - 1)" by simp
  then have "(y - 1) div k = y div k"
    using assms r False int_div_pos_eq [of "y - 1" k "y div k" "y mod k - 1"] by simp
  with False show ?thesis by simp
qed

lemma mod_400_100:
  assumes "(y::int) mod 400 = 0"
  shows "y mod 100 = 0"
proof -
  have "y mod 100 = y mod 400 mod 100" by (simp add: mod_mod_cancel)
  with assms show ?thesis by simp
qed

lemma mod_100_4:
  assumes "(y::int) mod 100 = 0"
  shows "y mod 4 = 0"
proof -
  have "y mod 4 = y mod 100 mod 4" by (simp add: mod_mod_cancel)
  with assms show ?thesis by simp
qed

lemma days_before_year_Suc:
  "days_before_year (y + 1) = days_before_year y + (if is_leap y then 366 else 365)"
proof -
  have a: "(y - 1) div 4 = y div 4 - (if y mod 4 = 0 then 1 else 0)" by (rule div_pred) simp
  have b: "(y - 1) div 100 = y div 100 - (if y mod 100 = 0 then 1 else 0)" by (rule div_pred) simp
  have c: "(y - 1) div 400 = y div 400 - (if y mod 400 = 0 then 1 else 0)" by (rule div_pred) simp
  show ?thesis
    unfolding days_before_year_def is_leap_def Let_def
    using mod_400_100 [of y] mod_100_4 [of y]
    by (simp add: a b c)
qed

lemma month_cases:
  "1 \<le> (m::int) \<Longrightarrow> m \<le> 12 \<Longrightarrow>
    m = 1 \<or> m = 2 \<or> m = 3 \<or> m = 4 \<or> m = 5 \<or> m = 6 \<or> m = 7 \<or> m = 8 \<or> m = 9 \<or> m = 10 \<or> m = 11 \<or> m = 12"
  by arith

lemma days_before_month_Suc:
  assumes "1 \<le> m" "m < 12"
  shows "days_before_month y (m + 1) = days_before_month y m + days_in_month y m"
proof -
  from assms have "m = 1 \<or> m = 2 \<or> m = 3 \<or> m = 4 \<or> m = 5 \<or> m = 6 \<or> m = 7 \<or> m = 8 \<or> m = 9 \<or> m = 10 \<or> m = 11"
    by arith
  then show ?thesis
    by (elim disjE) (simp_all add: days_before_month_def days_in_month_def DAYS_BEFORE_MONTH_def DAYS_IN_MONTH_def)
qed

lemma days_in_month_12: "days_in_month y 12 = 31"
  by (simp add: days_in_month_def DAYS_IN_MONTH_def)

lemma days_before_month_1: "days_before_month y 1 = 0"
  by (simp add: days_before_month_def DAYS_BEFORE_MONTH_def)

lemma days_before_month_12: "days_before_month y 12 = (if is_leap y then 335 else 334)"
  by (simp add: days_before_month_def DAYS_BEFORE_MONTH_def)

lemma days_in_month_ge: "1 \<le> m \<Longrightarrow> m \<le> 12 \<Longrightarrow> 28 \<le> days_in_month y m"
  by (drule (1) month_cases, elim disjE) (simp_all add: days_in_month_def DAYS_IN_MONTH_def)

text \<open>
  The next day of a date in range is in range and has the next ordinal; there is no
  next day only after 9999-12-31, which is a Friday.
\<close>

lemma tomorrow_Inr:
  assumes "valid_date d" and "tomorrow d = Inr d'"
  shows "valid_date d' \<and> toordinal d' = toordinal d + 1"
proof -
  from assms(1) have v: "1 \<le> year d" "year d \<le> 9999" "1 \<le> month d" "month d \<le> 12"
      "1 \<le> day d" "day d \<le> days_in_month (year d) (month d)"
    by (simp_all add: valid_date_def check_date_fields_def)
  consider (same) "day d < days_in_month (year d) (month d)"
    | (next_month) "day d = days_in_month (year d) (month d)" "month d < 12"
    | (next_year) "day d = days_in_month (year d) (month d)" "month d = 12" "year d < 9999"
    | (last) "day d = days_in_month (year d) (month d)" "month d = 12" "year d = 9999"
    using v by force
  then show ?thesis
  proof cases
    case same
    with assms(2) have "d' = d\<lparr>day := day d + 1\<rparr>" by (simp add: tomorrow_def)
    with same v show ?thesis
      by (simp add: valid_date_def check_date_fields_def toordinal_def)
  next
    case next_month
    with assms(2) have d': "d' = \<lparr>year = year d, month = month d + 1, day = 1\<rparr>"
      by (simp add: tomorrow_def)
    have "28 \<le> days_in_month (year d) (month d + 1)"
      using v next_month by (intro days_in_month_ge) simp_all
    with d' next_month v show ?thesis
      by (simp add: valid_date_def check_date_fields_def toordinal_def days_before_month_Suc)
  next
    case next_year
    with assms(2) have d': "d' = \<lparr>year = year d + 1, month = 1, day = 1\<rparr>"
      by (simp add: tomorrow_def)
    have "(28::int) \<le> days_in_month (year d + 1) 1"
      by (intro days_in_month_ge) simp_all
    with d' next_year v show ?thesis
      by (simp add: valid_date_def check_date_fields_def toordinal_def days_before_year_Suc
            days_before_month_1 days_before_month_12 days_in_month_12)
  next
    case last
    with assms(2) show ?thesis by (simp add: tomorrow_def)
  qed
qed

lemma tomorrow_Inl:
  assumes "valid_date d" and "tomorrow d = Inl e"
  shows "d = \<lparr>year = 9999, month = 12, day = 31\<rparr> \<and> e = OverflowError"
proof -
  from assms(1) have v: "1 \<le> year d" "year d \<le> 9999" "1 \<le> month d" "month d \<le> 12"
      "1 \<le> day d" "day d \<le> days_in_month (year d) (month d)"
    by (simp_all add: valid_date_def check_date_fields_def)
  from assms(2) have "\<not> day d < days_in_month (year d) (month d)" "\<not> month d < 12" "\<not> year d < 9999"
      and e: "e = OverflowError"
    by (auto simp: tomorrow_def split: if_splits)
  with v have "year d = 9999" "month d = 12" "day d = days_in_month (year d) (month d)" by simp_all
  then have "year d = 9999" "month d = 12" "day d = 31" by (simp_all add: days_in_month_12)
  then have "d = \<lparr>year = 9999, month = 12, day = 31\<rparr>" by (cases d) simp
  with e show ?thesis by simp
qed

lemma weekday_last_day: "weekday \<lparr>year = 9999, month = 12, day = 31\<rparr> = 4"
  by (simp add: weekday_def toordinal_def days_before_year_def days_before_month_def
        DAYS_BEFORE_MONTH_def is_leap_def)

lemma weekday_range: "0 \<le> weekday d \<and> weekday d \<le> 6"
  by (simp add: weekday_def)

lemma weekday_tomorrow:
  assumes "valid_date d" and "tomorrow d = Inr d'"
  shows "weekday d' = (weekday d + 1) mod 7"
proof -
  from tomorrow_Inr [OF assms] have "toordinal d' = toordinal d + 1" by simp
  then show ?thesis unfolding weekday_def by (simp add: mod_simps algebra_simps)
qed

lemma tomorrow_weekend:
  assumes "valid_date d" and "weekday d \<noteq> 4"
  shows "\<exists>d'. tomorrow d = Inr d' \<and> valid_date d' \<and> toordinal d' = toordinal d + 1
            \<and> weekday d' = (weekday d + 1) mod 7"
proof (cases "tomorrow d")
  case (Inl e)
  from tomorrow_Inl [OF assms(1) Inl] weekday_last_day assms(2) show ?thesis by simp
next
  case (Inr d')
  with tomorrow_Inr [OF assms(1) Inr] weekday_tomorrow [OF assms(1) Inr] show ?thesis by simp
qed

lemma add_days_1: "add_days d 1 = tomorrow d"
  by (simp split: sum.splits)

lemma add_days_2: "add_days d 2 = (case tomorrow d of Inl e \<Rightarrow> Inl e | Inr d' \<Rightarrow> tomorrow d')"
  by (simp add: numeral_2_eq_2 split: sum.splits)

lemma add_days_Inr:
  "valid_date d \<Longrightarrow> add_days d n = Inr d' \<Longrightarrow> valid_date d' \<and> toordinal d' = toordinal d + int n"
proof (induction n arbitrary: d)
  case 0
  then show ?case by simp
next
  case (Suc n)
  from Suc.prems(2) obtain d1 where d1: "tomorrow d = Inr d1" and rest: "add_days d1 n = Inr d'"
    by (auto split: sum.splits)
  from tomorrow_Inr [OF Suc.prems(1) d1] have "valid_date d1" "toordinal d1 = toordinal d + 1"
    by simp_all
  with Suc.IH [OF this(1) rest] show ?case by simp
qed

subsection \<open>The steps of the birthday query\<close>

lemma congratulation_date_shift:
  assumes "valid_date t"
  shows "\<exists>c. congratulation_date t = Inr c \<and> valid_date c
           \<and> toordinal c = toordinal t + (if weekday t = 5 then 2 else if weekday t = 6 then 1 else 0)
           \<and> weekday c = (if weekday t = 5 \<or> weekday t = 6 then 0 else weekday t)
           \<and> (weekday t \<noteq> 5 \<and> weekday t \<noteq> 6 \<longrightarrow> c = t)"
proof -
  consider (sat) "weekday t = 5" | (sun) "weekday t = 6" | (work) "weekday t \<noteq> 5" "weekday t \<noteq> 6"
    by blast
  then show ?thesis
  proof cases
    case sat
    from tomorrow_weekend [OF assms] sat obtain d1 where
      d1: "tomorrow t = Inr d1" "valid_date d1" "toordinal d1 = toordinal t + 1" "weekday d1 = 6"
      by auto
    from tomorrow_weekend [OF d1(2)] d1(4) obtain d2 where
      d2: "tomorrow d1 = Inr d2" "valid_date d2" "toordinal d2 = toordinal d1 + 1" "weekday d2 = 0"
      by auto
    from sat d1 d2 show ?thesis by (simp add: congratulation_date_def add_days_2)
  next
    case sun
    from tomorrow_weekend [OF assms] sun obtain d1 where
      d1: "tomorrow t = Inr d1" "valid_date d1" "toordinal d1 = toordinal t + 1" "weekday d1 = 0"
      by auto
    from sun d1 show ?thesis by (simp add: congratulation_date_def add_days_1)
  next
    case work
    with assms show ?thesis by (simp add: congratulation_date_def)
  qed
qed

lemma replace_year_Inr:
  "replace_year d y = Inr t \<Longrightarrow> t = \<lparr>year = y, month = month d, day = day d\<rparr> \<and> valid_date t"
  by (auto simp: replace_year_def valid_date_def split: if_splits)

lemma replace_year_Inl: "replace_year d y = Inl e \<Longrightarrow> e = ValueError"
  by (auto simp: replace_year_def split: if_splits)

lemma this_year_birthday_Inr:
  assumes "this_year_birthday today b = Inr t"
  shows "valid_date t \<and> t = spec_occurrence today b"
proof -
  from assms obtain t0 where t0: "replace_year b (year today) = Inr t0"
    and t: "(if date_less t0 today then replace_year t0 (year today + 1) else Inr t0) = Inr t"
    by (auto simp: this_year_birthday_def split: sum.splits)
  from replace_year_Inr [OF t0] have t0_eq: "t0 = \<lparr>year = year today, month = month b, day = day b\<rparr>"
    and t0_valid: "valid_date t0" by blast+
  show ?thesis
  proof (cases "date_less t0 today")
    case True
    with t have "replace_year t0 (year today + 1) = Inr t" by simp
    from replace_year_Inr [OF this] True t0_eq show ?thesis
      by (auto simp: spec_occurrence_def)
  next
    case False
    with t t0_eq t0_valid show ?thesis by (simp add: spec_occurrence_def)
  qed
qed

lemma this_year_birthday_Inl: "this_year_birthday today b = Inl e \<Longrightarrow> e = ValueError"
  by (auto simp: this_year_birthday_def split: sum.splits if_splits dest: replace_year_Inl)

lemma congratulation_date_total:
  "this_year_birthday today b = Inr t \<Longrightarrow> \<exists>c. congratulation_date t = Inr c"
  using this_year_birthday_Inr congratulation_date_shift by blast

lemma upcoming_loop_names:
  "upcoming_loop today rs acc = Inr es \<Longrightarrow>
     map (\<lambda>e. map_of e ''name'') es =
       map (\<lambda>e. map_of e ''name'') acc @ map (\<lambda>r. Some (name r)) (filter (record_qualifies today) rs)"
proof (induction rs arbitrary: acc)
  case Nil
  then show ?case by simp
next
  case (Cons r rs)
  show ?case
  proof (cases "birthday r")
    case None
    with Cons show ?thesis by (simp add: record_qualifies_def)
  next
    case (Some b)
    show ?thesis
    proof (cases "this_year_birthday today b")
      case (Inl e)
      with Some Cons.prems show ?thesis by simp
    next
      case (Inr t)
      from this_year_birthday_Inr [OF Inr] have t: "t = spec_occurrence today b" by simp
      show ?thesis
      proof (cases "0 \<le> days_between t today \<and> days_between t today \<le> 7")
        case True
        with t have q: "record_qualifies today r"
          by (simp add: record_qualifies_def Some spec_qualifies_def days_between_def)
        from congratulation_date_total [OF Inr] obtain c where c: "congratulation_date t = Inr c" ..
        from Cons.prems Some Inr True c
        have "upcoming_loop today rs (acc @ [upcoming_entry r c]) = Inr es" by simp
        from Cons.IH [OF this] q show ?thesis by (simp add: upcoming_entry_def)
      next
        case False
        with t have q: "\<not> record_qualifies today r"
          by (simp add: record_qualifies_def Some spec_qualifies_def days_between_def Let_def)
        from Cons.prems Some Inr False
        have "upcoming_loop today rs acc = Inr es" by auto
        from Cons.IH [OF this] q show ?thesis by simp
      qed
    qed
  qed
qed

lemma upcoming_loop_Inl: "upcoming_loop today rs acc = Inl e \<Longrightarrow> e = ValueError"
proof (induction rs arbitrary: acc)
  case Nil
  then show ?case by simp
next
  case (Cons r rs)
  show ?case
  proof (cases "birthday r")
    case None
    with Cons show ?thesis by simp
  next
    case (Some b)
    show ?thesis
    proof (cases "this_year_birthday today b")
      case (Inl e')
      with Some Cons.prems this_year_birthday_Inl [OF Inl] show ?thesis by simp
    next
      case (Inr t)
      from congratulation_date_total [OF Inr] obtain c where c: "congratulation_date t = Inr c" ..
      from Cons.prems Some Inr c
      have "upcoming_loop today rs (acc @ [upcoming_entry r c]) = Inl e \<or> upcoming_loop today rs acc = Inl e"
        by (simp split: if_splits)
      with Cons.IH show ?thesis by blast
    qed
  qed
qed

lemma feb29_non_leap: 
  assumes "\<not> is_leap (year today)" "month b = 2" "day b = 29"
  shows "this_year_birthday today b = Inl ValueError"
  using assms
  by (simp add: this_year_birthday_def replace_year_def check_date_fields_def days_in_month_def
        DAYS_IN_MONTH_def)

lemma upcoming_loop_feb29:
  assumes "\<not> is_leap (year today)"
    and "r \<in> set rs" and "birthday r = Some b" and "month b = 2" and "day b = 29"
  shows "\<exists>e. upcoming_loop today rs acc = Inl e"
  using assms(2)
proof (induction rs arbitrary: acc)
  case Nil
  then show ?case by simp
next
  case (Cons r0 rs)
  show ?case
  proof (cases "r0 = r")
    case True
    with assms feb29_non_leap [OF assms(1,4,5)] show ?thesis by simp
  next
    case False
    with Cons.prems have "r \<in> set rs" by simp
    from Cons.IH [OF this] show ?thesis
      by (simp split: option.splits sum.splits)
  qed
qed

lemma days_in_month_any_year:
  assumes "1 \<le> m" "m \<le> 12" "d \<le> days_in_month y m" "\<not> (m = 2 \<and> d = 29)"
  shows "d \<le> days_in_month y' m"
  using assms by (auto simp: days_in_month_def DAYS_IN_MONTH_def split: if_splits)

lemma replace_year_ok:
  assumes "valid_date b" "\<not> (month b = 2 \<and> day b = 29)" "1 \<le> y" "y \<le> 9999"
  shows "replace_year b y = Inr \<lparr>year = y, month = month b, day = day b\<rparr>"
proof -
  from assms(1) have v: "1 \<le> month b" "month b \<le> 12" "1 \<le> day b"
      "day b \<le> days_in_month (year b) (month b)"
    by (simp_all add: valid_date_def check_date_fields_def)
  from days_in_month_any_year [OF v(1,2,4) assms(2)] have "day b \<le> days_in_month y (month b)" .
  with v assms(3,4) show ?thesis by (simp add: replace_year_def check_date_fields_def)
qed

lemma this_year_birthday_ok:
  assumes "valid_date b" "\<not> (month b = 2 \<and> day b = 29)" "1 \<le> year today" "year today < 9999"
  shows "\<exists>t. this_year_birthday today b = Inr t"
proof -
  have 1: "replace_year b (year today) = Inr \<lparr>year = year today, month = month b, day = day b\<rparr>"
    using assms by (intro replace_year_ok) simp_all
  have 2: "replace_year b (year today + 1) = Inr \<lparr>year = year today + 1, month = month b, day = day b\<rparr>"
    using assms by (intro replace_year_ok) simp_all
  then have 3: "replace_year \<lparr>year = year today, month = month b, day = day b\<rparr> (year today + 1)
      = Inr \<lparr>year = year today + 1, month = month b, day = day b\<rparr>"
    by (simp add: replace_year_def split: if_splits)
  show ?thesis by (simp add: this_year_birthday_def 1 3)
qed

lemma upcoming_loop_returns:
  assumes "1 \<le> year today" "year today < 9999"
    and "\<forall>r\<in>set rs. \<forall>b. birthday r = Some b \<longrightarrow> valid_date b \<and> \<not> (month b = 2 \<and> day b = 29)"
  shows "\<exists>es. upcoming_loop today rs acc = Inr es"
  using assms(3)
proof (induction rs arbitrary: acc)
  case Nil
  then show ?case by simp
next
  case (Cons r rs)
  then have IH: "\<And>acc. \<exists>es. upcoming_loop today rs acc = Inr es" by simp
  show ?case
  proof (cases "birthday r")
    case None
    with IH show ?thesis by simp
  next
    case (Some b)
    with Cons.prems have "valid_date b" "\<not> (month b = 2 \<and> day b = 29)" by simp_all
    from this_year_birthday_ok [OF this assms(1,2)] obtain t where t: "this_year_birthday today b = Inr t" ..
    from congratulation_date_total [OF t] obtain c where c: "congratulation_date t = Inr c" ..
    from Some t c IH show ?thesis by simp
  qed
qed

lemma upcoming_names_member:
  assumes eq: "map (\<lambda>e. map_of e ''name'') es =
      map (\<lambda>r. Some (name r)) (filter (record_qualifies today) (map snd book))"
    and dist: "distinct (map (\<lambda>(k, r). name r) book)"
    and mem: "(k, r) \<in> set book"
  shows "(\<exists>e\<in>set es. map_of e ''name'' = Some (name r)) \<longleftrightarrow> record_qualifies today r"
proof -
  have "(\<exists>e\<in>set es. map_of e ''name'' = Some (name r))
      \<longleftrightarrow> Some (name r) \<in> set (map (\<lambda>e. map_of e ''name'') es)"
    by (force simp: image_iff)
  also have "\<dots> \<longleftrightarrow> (\<exists>p\<in>set book. record_qualifies today (snd p) \<and> name (snd p) = name r)"
    unfolding eq by (force simp: image_iff)
  also have "\<dots> \<longleftrightarrow> record_qualifies today r"
  proof
    assume "\<exists>p\<in>set book. record_qualifies today (snd p) \<and> name (snd p) = name r"
    then obtain p where p: "p \<in> set book" "record_qualifies today (snd p)" "name (snd p) = name r"
      by blast
    from dist have inj: "inj_on (\<lambda>(k, r). name r) (set book)" by (simp add: distinct_map)
    have "p = (k, r)"
    proof (rule inj_onD [OF inj _ p(1) mem])
      show "(case p of (k, r) \<Rightarrow> name r) = (case (k, r) of (k, r) \<Rightarrow> name r)"
        using p(3) by (cases p) simp
    qed
    with p(2) show "record_qualifies today r" by simp
  next
    assume "record_qualifies today r"
    with mem show "\<exists>p\<in>set book. record_qualifies today (snd p) \<and> name (snd p) = name r"
      by force
  qed
  finally show ?thesis .
qed

section \<open>The claims\<close>

text \<open>
  C1. A record whose birthday qualifies is not always included. With \<open>today\<close> =
  10.06.2023 and a book that holds Bob, born 12.06.1990, and Anna, born 29.02.2000,
  the occurrence of Bob's birthday is 12.06.2023, 2 days after \<open>today\<close>, so it
  qualifies; but \<^verbatim>\<open>birthday.replace(year=today.year)\<close> raises \<^verbatim>\<open>ValueError\<close> on Anna's
  record, the call returns no list and Bob is not reported. Asked for Bob alone, the
  same query lists him.
\<close>

theorem upcoming_raises_with_qualifying_record:
  "spec_occurrence \<lparr>year = 2023, month = 6, day = 10\<rparr> \<lparr>year = 1990, month = 6, day = 12\<rparr>
     = \<lparr>year = 2023, month = 6, day = 12\<rparr>
   \<and> spec_qualifies \<lparr>year = 2023, month = 6, day = 10\<rparr> \<lparr>year = 1990, month = 6, day = 12\<rparr>
   \<and> get_upcoming_birthdays \<lparr>year = 2023, month = 6, day = 10\<rparr>
        [(''Bob'', \<lparr>name = ''Bob'', phones = [], birthday = Some \<lparr>year = 1990, month = 6, day = 12\<rparr>\<rparr>),
         (''Anna'', \<lparr>name = ''Anna'', phones = [], birthday = Some \<lparr>year = 2000, month = 2, day = 29\<rparr>\<rparr>)]
       = Inl ValueError
   \<and> get_upcoming_birthdays \<lparr>year = 2023, month = 6, day = 10\<rparr>
        [(''Bob'', \<lparr>name = ''Bob'', phones = [], birthday = Some \<lparr>year = 1990, month = 6, day = 12\<rparr>\<rparr>)]
       = Inr [[(''name'', ''Bob''), (''birthday'', ''12.06.2023''), (''congratulation_date'', ''2023.06.12'')]]"
  by code_simp

text \<open>
  What the loop does do. Whenever \<^verbatim>\<open>get_upcoming_birthdays\<close> returns, the names of its
  entries are, in the order of the book, the names of exactly the records with a
  birthday whose occurrence qualifies: the occurrence is the month and day of the
  birthday in the year of \<open>today\<close>, moved to the next year exactly when it is strictly
  before \<open>today\<close>, and it qualifies exactly when it is between 0 and 7 days after
  \<open>today\<close>, both ends included. In a book whose records have distinct names, a record
  with a birthday has an entry if and only if its birthday qualifies. The query does
  return when \<open>today\<close> is in a year from 1 to 9998 and no birthday is a 29 February.
\<close>

lemma upcoming_includes_iff_qualifies:
  "(get_upcoming_birthdays today book = Inr es \<longrightarrow>
      map (\<lambda>e. map_of e ''name'') es =
        map (\<lambda>r. Some (name r)) (filter (record_qualifies today) (map snd book))
      \<and> (distinct (map (\<lambda>(k, r). name r) book) \<longrightarrow>
           (\<forall>(k, r) \<in> set book. \<forall>b. birthday r = Some b \<longrightarrow>
              ((\<exists>e\<in>set es. map_of e ''name'' = Some (name r)) \<longleftrightarrow> spec_qualifies today b))))
   \<and> (1 \<le> year today \<and> year today < 9999
        \<and> (\<forall>(k, r) \<in> set book. \<forall>b. birthday r = Some b
              \<longrightarrow> valid_date b \<and> \<not> (month b = 2 \<and> day b = 29))
      \<longrightarrow> (\<exists>es'. get_upcoming_birthdays today book = Inr es'))"
proof (intro conjI impI)
  assume "get_upcoming_birthdays today book = Inr es"
  then show eq: "map (\<lambda>e. map_of e ''name'') es =
        map (\<lambda>r. Some (name r)) (filter (record_qualifies today) (map snd book))"
    using upcoming_loop_names [of today "map snd book" "[]" es]
    by (simp add: get_upcoming_birthdays_def)
  assume dist: "distinct (map (\<lambda>(k, r). name r) book)"
  show "\<forall>(k, r) \<in> set book. \<forall>b. birthday r = Some b \<longrightarrow>
          ((\<exists>e\<in>set es. map_of e ''name'' = Some (name r)) \<longleftrightarrow> spec_qualifies today b)"
  proof (intro ballI, clarify)
    fix k r b
    assume "(k, r) \<in> set book" and b: "birthday r = Some b"
    from upcoming_names_member [OF eq dist this(1)] b
    show "(\<exists>e\<in>set es. map_of e ''name'' = Some (name r)) \<longleftrightarrow> spec_qualifies today b"
      by (simp add: record_qualifies_def)
  qed
next
  assume a: "1 \<le> year today \<and> year today < 9999
        \<and> (\<forall>(k, r) \<in> set book. \<forall>b. birthday r = Some b
              \<longrightarrow> valid_date b \<and> \<not> (month b = 2 \<and> day b = 29))"
  then have "\<forall>r\<in>set (map snd book). \<forall>b. birthday r = Some b
      \<longrightarrow> valid_date b \<and> \<not> (month b = 2 \<and> day b = 29)"
    by fastforce
  with a upcoming_loop_returns [of today "map snd book" "[]"]
  show "\<exists>es'. get_upcoming_birthdays today book = Inr es'"
    by (simp add: get_upcoming_birthdays_def)
qed

lemma upcoming_includes_iff_qualifies_example:
  "get_upcoming_birthdays \<lparr>year = 2024, month = 6, day = 10\<rparr>
      [(''Anna'', \<lparr>name = ''Anna'', phones = [], birthday = Some \<lparr>year = 1990, month = 6, day = 15\<rparr>\<rparr>),
       (''Bob'', \<lparr>name = ''Bob'', phones = [], birthday = Some \<lparr>year = 1985, month = 6, day = 20\<rparr>\<rparr>),
       (''Carl'', \<lparr>name = ''Carl'', phones = [], birthday = None\<rparr>)]
     = Inr [[(''name'', ''Anna''), (''birthday'', ''17.06.2024''), (''congratulation_date'', ''2024.06.17'')]]
   \<and> spec_occurrence \<lparr>year = 2024, month = 6, day = 10\<rparr> \<lparr>year = 1990, month = 6, day = 15\<rparr>
        = \<lparr>year = 2024, month = 6, day = 15\<rparr>
   \<and> spec_qualifies \<lparr>year = 2024, month = 6, day = 10\<rparr> \<lparr>year = 1990, month = 6, day = 15\<rparr>
   \<and> \<not> spec_qualifies \<lparr>year = 2024, month = 6, day = 10\<rparr> \<lparr>year = 1985, month = 6, day = 20\<rparr>
   \<and> map (\<lambda>r. Some (name r)) (filter (record_qualifies \<lparr>year = 2024, month = 6, day = 10\<rparr>)
        (map snd
          [(''Anna'', \<lparr>name = ''Anna'', phones = [], birthday = Some \<lparr>year = 1990, month = 6, day = 15\<rparr>\<rparr>),
           (''Bob'', \<lparr>name = ''Bob'', phones = [], birthday = Some \<lparr>year = 1985, month = 6, day = 20\<rparr>\<rparr>),
           (''Carl'', \<lparr>name = ''Carl'', phones = [], birthday = None\<rparr>)]))
       = [Some ''Anna'']
   \<and> valid_date \<lparr>year = 1990, month = 6, day = 15\<rparr> \<and> valid_date \<lparr>year = 1985, month = 6, day = 20\<rparr>
   \<and> (\<exists>es'. get_upcoming_birthdays \<lparr>year = 2024, month = 6, day = 10\<rparr>
      [(''Anna'', \<lparr>name = ''Anna'', phones = [], birthday = Some \<lparr>year = 1990, month = 6, day = 15\<rparr>\<rparr>),
       (''Bob'', \<lparr>name = ''Bob'', phones = [], birthday = Some \<lparr>year = 1985, month = 6, day = 20\<rparr>\<rparr>),
       (''Carl'', \<lparr>name = ''Carl'', phones = [], birthday = None\<rparr>)] = Inr es')"
proof -
  let ?T = "\<lparr>year = 2024, month = 6, day = 10\<rparr>"
  let ?a = "\<lparr>year = 1990, month = 6, day = 15\<rparr>"
  let ?b = "\<lparr>year = 1985, month = 6, day = 20\<rparr>"
  let ?B = "[(''Anna'', \<lparr>name = ''Anna'', phones = [], birthday = Some ?a\<rparr>),
       (''Bob'', \<lparr>name = ''Bob'', phones = [], birthday = Some ?b\<rparr>),
       (''Carl'', \<lparr>name = ''Carl'', phones = [], birthday = None\<rparr>)]"
  let ?ES = "[[(''name'', ''Anna''), (''birthday'', ''17.06.2024''), (''congratulation_date'', ''2024.06.17'')]]"
  have run: "get_upcoming_birthdays ?T ?B = Inr ?ES" by code_simp
  have dist: "distinct (map (\<lambda>(k, r). name r) ?B)" by simp
  have va: "valid_date ?a" by code_simp
  have vb: "valid_date ?b" by code_simp
  have occ: "spec_occurrence ?T ?a = \<lparr>year = 2024, month = 6, day = 15\<rparr>" by code_simp
  have safe: "1 \<le> year ?T \<and> year ?T < 9999
        \<and> (\<forall>(k, r) \<in> set ?B. \<forall>b. birthday r = Some b
              \<longrightarrow> valid_date b \<and> \<not> (month b = 2 \<and> day b = 29))"
    using va vb by simp
  note main = upcoming_includes_iff_qualifies [of ?T ?B ?ES]
  from main run have names: "map (\<lambda>e. map_of e ''name'') ?ES =
        map (\<lambda>r. Some (name r)) (filter (record_qualifies ?T) (map snd ?B))"
    by blast
  from main run dist have each: "\<forall>(k, r) \<in> set ?B. \<forall>b. birthday r = Some b \<longrightarrow>
              ((\<exists>e\<in>set ?ES. map_of e ''name'' = Some (name r)) \<longleftrightarrow> spec_qualifies ?T b)"
    by blast
  from each have qa: "spec_qualifies ?T ?a" by simp
  from each have qb: "\<not> spec_qualifies ?T ?b" by simp
  from main safe have ex: "\<exists>es'. get_upcoming_birthdays ?T ?B = Inr es'" by blast
  from names have names': "map (\<lambda>r. Some (name r)) (filter (record_qualifies ?T) (map snd ?B)) = [Some ''Anna'']"
    by simp
  from run occ qa qb names' va vb ex show ?thesis by blast
qed

text \<open>
  C2. For every occurrence that \<^verbatim>\<open>get_upcoming_birthdays\<close> computes, the date of
  congratulation exists (the addition never overflows), is exactly 2 days after the
  occurrence when that is a Saturday, exactly 1 day after it when that is a Sunday,
  and is the occurrence itself on Monday to Friday; it always falls on Monday to
  Friday, and it is the date written into the entry of a qualifying record. Some
  qualifying occurrence has its date of congratulation more than 7 days after
  \<open>today\<close>.
\<close>

theorem congratulation_date_weekend_shift:
  "(this_year_birthday today b = Inr t \<longrightarrow>
     (\<exists>c. congratulation_date t = Inr c \<and> valid_date c
        \<and> days_between c t = (if weekday t = 5 then 2 else if weekday t = 6 then 1 else 0)
        \<and> (weekday t \<noteq> 5 \<and> weekday t \<noteq> 6 \<longrightarrow> c = t)
        \<and> 0 \<le> weekday c \<and> weekday c \<le> 4
        \<and> (0 \<le> days_between t today \<and> days_between t today \<le> 7 \<longrightarrow>
             get_upcoming_birthdays today [(k, r\<lparr>birthday := Some b\<rparr>)] = Inr [upcoming_entry r c])))
   \<and> (\<exists>today' b' t' c'. this_year_birthday today' b' = Inr t'
         \<and> 0 \<le> days_between t' today' \<and> days_between t' today' \<le> 7
         \<and> congratulation_date t' = Inr c' \<and> 7 < days_between c' today')"
proof (intro conjI impI)
  assume t: "this_year_birthday today b = Inr t"
  then have "valid_date t" using this_year_birthday_Inr by blast
  from congratulation_date_shift [OF this] obtain c where
    c: "congratulation_date t = Inr c" "valid_date c"
       "toordinal c = toordinal t + (if weekday t = 5 then 2 else if weekday t = 6 then 1 else 0)"
       "weekday c = (if weekday t = 5 \<or> weekday t = 6 then 0 else weekday t)"
       "weekday t \<noteq> 5 \<and> weekday t \<noteq> 6 \<longrightarrow> c = t"
    by blast
  have range: "0 \<le> weekday t \<and> weekday t \<le> 6" by (rule weekday_range)
  have 1: "days_between c t = (if weekday t = 5 then 2 else if weekday t = 6 then 1 else 0)"
    using c(3) by (simp add: days_between_def)
  have 2: "0 \<le> weekday c \<and> weekday c \<le> 4"
    using c(4) range by (auto split: if_splits)
  have 3: "0 \<le> days_between t today \<and> days_between t today \<le> 7 \<longrightarrow>
             get_upcoming_birthdays today [(k, r\<lparr>birthday := Some b\<rparr>)] = Inr [upcoming_entry r c]"
    using t c(1) by (simp add: get_upcoming_birthdays_def upcoming_entry_def)
  from c(1,2,5) 1 2 3
  show "\<exists>c. congratulation_date t = Inr c \<and> valid_date c
        \<and> days_between c t = (if weekday t = 5 then 2 else if weekday t = 6 then 1 else 0)
        \<and> (weekday t \<noteq> 5 \<and> weekday t \<noteq> 6 \<longrightarrow> c = t)
        \<and> 0 \<le> weekday c \<and> weekday c \<le> 4
        \<and> (0 \<le> days_between t today \<and> days_between t today \<le> 7 \<longrightarrow>
             get_upcoming_birthdays today [(k, r\<lparr>birthday := Some b\<rparr>)] = Inr [upcoming_entry r c])"
    by blast
next
  have "this_year_birthday \<lparr>year = 2024, month = 6, day = 9\<rparr> \<lparr>year = 1990, month = 6, day = 16\<rparr>
          = Inr \<lparr>year = 2024, month = 6, day = 16\<rparr>
        \<and> 0 \<le> days_between \<lparr>year = 2024, month = 6, day = 16\<rparr> \<lparr>year = 2024, month = 6, day = 9\<rparr>
        \<and> days_between \<lparr>year = 2024, month = 6, day = 16\<rparr> \<lparr>year = 2024, month = 6, day = 9\<rparr> \<le> 7
        \<and> congratulation_date \<lparr>year = 2024, month = 6, day = 16\<rparr> = Inr \<lparr>year = 2024, month = 6, day = 17\<rparr>
        \<and> 7 < days_between \<lparr>year = 2024, month = 6, day = 17\<rparr> \<lparr>year = 2024, month = 6, day = 9\<rparr>"
    by code_simp
  then show "\<exists>today' b' t' c'. this_year_birthday today' b' = Inr t'
         \<and> 0 \<le> days_between t' today' \<and> days_between t' today' \<le> 7
         \<and> congratulation_date t' = Inr c' \<and> 7 < days_between c' today'"
    by blast
qed

theorem congratulation_date_weekend_shift_witness:
  "this_year_birthday \<lparr>year = 2024, month = 6, day = 10\<rparr> \<lparr>year = 1990, month = 6, day = 15\<rparr>
     = Inr \<lparr>year = 2024, month = 6, day = 15\<rparr>
   \<and> weekday \<lparr>year = 2024, month = 6, day = 15\<rparr> = 5
   \<and> congratulation_date \<lparr>year = 2024, month = 6, day = 15\<rparr> = Inr \<lparr>year = 2024, month = 6, day = 17\<rparr>
   \<and> days_between \<lparr>year = 2024, month = 6, day = 17\<rparr> \<lparr>year = 2024, month = 6, day = 15\<rparr> = 2
   \<and> weekday \<lparr>year = 2024, month = 6, day = 17\<rparr> \<le> 4
   \<and> days_between \<lparr>year = 2024, month = 6, day = 15\<rparr> \<lparr>year = 2024, month = 6, day = 10\<rparr> = 5
   \<and> get_upcoming_birthdays \<lparr>year = 2024, month = 6, day = 10\<rparr>
         [(''Anna'', \<lparr>name = ''Anna'', phones = [], birthday = Some \<lparr>year = 1990, month = 6, day = 15\<rparr>\<rparr>)]
       = Inr [upcoming_entry \<lparr>name = ''Anna'', phones = [], birthday = None\<rparr> \<lparr>year = 2024, month = 6, day = 17\<rparr>]
   \<and> strftime_Ymd \<lparr>year = 2024, month = 6, day = 17\<rparr> = ''2024.06.17''"
proof -
  let ?T = "\<lparr>year = 2024, month = 6, day = 10\<rparr>"
  let ?b = "\<lparr>year = 1990, month = 6, day = 15\<rparr>"
  let ?t = "\<lparr>year = 2024, month = 6, day = 15\<rparr>"
  let ?c = "\<lparr>year = 2024, month = 6, day = 17\<rparr>"
  let ?r = "\<lparr>name = ''Anna'', phones = [], birthday = None\<rparr>"
  have occ: "this_year_birthday ?T ?b = Inr ?t" by code_simp
  have sat: "weekday ?t = 5" by code_simp
  have c: "congratulation_date ?t = Inr ?c" by code_simp
  have win: "days_between ?t ?T = 5" by code_simp
  have fmt: "strftime_Ymd ?c = ''2024.06.17''" by code_simp
  from congratulation_date_weekend_shift [of ?T ?b ?t "''Anna''" ?r] occ
  obtain c' where c': "congratulation_date ?t = Inr c'"
      "days_between c' ?t = (if weekday ?t = 5 then 2 else if weekday ?t = 6 then 1 else 0)"
      "weekday c' \<le> 4"
      "0 \<le> days_between ?t ?T \<and> days_between ?t ?T \<le> 7 \<longrightarrow>
         get_upcoming_birthdays ?T [(''Anna'', ?r\<lparr>birthday := Some ?b\<rparr>)] = Inr [upcoming_entry ?r c']"
    by blast
  from c c'(1) have eq: "c' = ?c" by simp
  from c'(2) sat eq have two: "days_between ?c ?t = 2" by simp
  from c'(3) eq have wd: "weekday ?c \<le> 4" by simp
  from c'(4) win eq have run: "get_upcoming_birthdays ?T [(''Anna'', ?r\<lparr>birthday := Some ?b\<rparr>)] = Inr [upcoming_entry ?r ?c]"
    by simp
  from occ sat c two wd win run fmt show ?thesis by simp
qed

text \<open>
  C3. The entry's \<^verbatim>\<open>birthday\<close> field is formatted from \<^verbatim>\<open>congratulation_date\<close>, not from
  \<^verbatim>\<open>this_year_birthday\<close>. With \<open>today\<close> = 10.06.2024 and the birthday 15.06.1990 the
  occurrence is Saturday 15.06.2024, but the field reads 17.06.2024, the same date as
  the field \<^verbatim>\<open>congratulation_date\<close>.
\<close>

theorem upcoming_birthday_field_is_shifted:
  "this_year_birthday \<lparr>year = 2024, month = 6, day = 10\<rparr> \<lparr>year = 1990, month = 6, day = 15\<rparr>
     = Inr \<lparr>year = 2024, month = 6, day = 15\<rparr>
   \<and> strftime_dmY \<lparr>year = 2024, month = 6, day = 15\<rparr> = ''15.06.2024''
   \<and> get_upcoming_birthdays \<lparr>year = 2024, month = 6, day = 10\<rparr>
       [(''Anna'', \<lparr>name = ''Anna'', phones = [], birthday = Some \<lparr>year = 1990, month = 6, day = 15\<rparr>\<rparr>)]
     = Inr [[(''name'', ''Anna''), (''birthday'', ''17.06.2024''), (''congratulation_date'', ''2024.06.17'')]]"
  by code_simp

text \<open>
  C4. When \<open>today\<close> lies in a year that is not a leap year and some record of the book
  has a birthday on 29 February, \<^verbatim>\<open>get_upcoming_birthdays\<close> raises \<^verbatim>\<open>ValueError\<close>
  and returns no list.
\<close>

theorem feb29_birthday_raises:
  assumes "\<not> is_leap (year today)"
    and "(k, r) \<in> set book" and "birthday r = Some b" and "month b = 2" and "day b = 29"
  shows "get_upcoming_birthdays today book = Inl ValueError"
proof -
  from assms(2) have "r \<in> set (map snd book)" by force
  from upcoming_loop_feb29 [OF assms(1) this assms(3,4,5)]
  obtain e where e: "upcoming_loop today (map snd book) [] = Inl e" ..
  from upcoming_loop_Inl [OF e] e show ?thesis by (simp add: get_upcoming_birthdays_def)
qed

theorem feb29_birthday_raises_witness:
  "\<not> is_leap (year \<lparr>year = 2023, month = 2, day = 25\<rparr>)
   \<and> valid_date \<lparr>year = 2023, month = 2, day = 25\<rparr>
   \<and> valid_date \<lparr>year = 2000, month = 2, day = 29\<rparr>
   \<and> get_upcoming_birthdays \<lparr>year = 2023, month = 2, day = 25\<rparr>
        [(''Anna'', \<lparr>name = ''Anna'', phones = [], birthday = Some \<lparr>year = 2000, month = 2, day = 29\<rparr>\<rparr>)]
      = Inl ValueError"
proof -
  let ?T = "\<lparr>year = 2023, month = 2, day = 25\<rparr>"
  let ?b = "\<lparr>year = 2000, month = 2, day = 29\<rparr>"
  let ?r = "\<lparr>name = ''Anna'', phones = [], birthday = Some ?b\<rparr>"
  have h1: "\<not> is_leap (year ?T)" by code_simp
  have h2: "(''Anna'', ?r) \<in> set [(''Anna'', ?r)]" by simp
  have h3: "birthday ?r = Some ?b" by simp
  have h4: "month ?b = 2" by simp
  have h5: "day ?b = 29" by simp
  have v1: "valid_date ?T" by code_simp
  have v2: "valid_date ?b" by code_simp
  from feb29_birthday_raises [OF h1 h2 h3 h4 h5] h1 v1 v2 show ?thesis by simp
qed

text \<open>
  C5, as the code has it. \<^verbatim>\<open>edit_phone\<close> replaces every phone of the list that equals
  \<^verbatim>\<open>old_phone\<close>, not only the first, and leaves the other phones, the name and the
  birthday as they are; when no phone equals \<^verbatim>\<open>old_phone\<close> the record is unchanged.
\<close>

theorem edit_phone_replaces_every_match:
  "phones (edit_phone r old_phone new_phone) =
     map (\<lambda>p. if p = old_phone then new_phone else p) (phones r)
   \<and> name (edit_phone r old_phone new_phone) = name r
   \<and> birthday (edit_phone r old_phone new_phone) = birthday r
   \<and> (old_phone \<notin> set (phones r) \<longrightarrow> edit_phone r old_phone new_phone = r)"
proof -
  have "old_phone \<notin> set (phones r) \<longrightarrow> edit_phone r old_phone new_phone = r"
    by (simp add: edit_phone_def edit_phone_loop_absent)
  moreover have "phones (edit_phone r old_phone new_phone) =
     map (\<lambda>p. if p = old_phone then new_phone else p) (phones r)"
    by (simp add: edit_phone_def edit_phone_loop_map)
  ultimately show ?thesis by (simp add: edit_phone_def)
qed

theorem edit_phone_replaces_every_match_witness:
  "phones (edit_phone \<lparr>name = ''Anna'', phones = [''1111111111'', ''3333333333'', ''1111111111''], birthday = None\<rparr>
      ''1111111111'' ''2222222222'') = [''2222222222'', ''3333333333'', ''2222222222'']
   \<and> ''4444444444'' \<notin> set [''1111111111'', ''3333333333'', ''1111111111'']
   \<and> edit_phone \<lparr>name = ''Anna'', phones = [''1111111111'', ''3333333333'', ''1111111111''], birthday = None\<rparr>
      ''4444444444'' ''2222222222'' = \<lparr>name = ''Anna'', phones = [''1111111111'', ''3333333333'', ''1111111111''], birthday = None\<rparr>"
  using edit_phone_replaces_every_match [of "\<lparr>name = ''Anna'', phones = [''1111111111'', ''3333333333'', ''1111111111''], birthday = None\<rparr>" "''1111111111''" "''2222222222''"]
    edit_phone_replaces_every_match [of "\<lparr>name = ''Anna'', phones = [''1111111111'', ''3333333333'', ''1111111111''], birthday = None\<rparr>" "''4444444444''" "''2222222222''"]
  by simp

text \<open>
  C5 as stated fails on a list with a duplicate: the later phone equal to
  \<^verbatim>\<open>old_phone\<close> is replaced too.
\<close>

theorem edit_phone_later_duplicate_counterexample:
  "phones (edit_phone \<lparr>name = ''Anna'', phones = [''1111111111'', ''1111111111''], birthday = None\<rparr>
      ''1111111111'' ''2222222222'') = [''2222222222'', ''2222222222'']
   \<and> phones (edit_phone \<lparr>name = ''Anna'', phones = [''1111111111'', ''1111111111''], birthday = None\<rparr>
      ''1111111111'' ''2222222222'') \<noteq> [''2222222222'', ''1111111111'']"
  by (simp add: edit_phone_def)

text \<open>
  C6. \<^verbatim>\<open>edit_phone\<close> does not validate the new phone: \<^verbatim>\<open>add_phone\<close> rejects the string
  \<^verbatim>\<open>abc\<close> with a \<^verbatim>\<open>ValidationException\<close>, while \<^verbatim>\<open>edit_phone\<close> stores it in place of
  a valid phone and raises nothing.
\<close>

theorem edit_phone_stores_invalid_phone:
  "add_phone \<lparr>name = ''Anna'', phones = [''1234567890''], birthday = None\<rparr> ''abc''
     = Inl (ValidationException ''Phone number must be 10 digits'')
   \<and> edit_phone \<lparr>name = ''Anna'', phones = [''1234567890''], birthday = None\<rparr> ''1234567890'' ''abc''
       = \<lparr>name = ''Anna'', phones = [''abc''], birthday = None\<rparr>"
  by (simp add: edit_phone_def add_phone_def Phone_def validate_phone_def)

text \<open>
  C7, as the code has it. For every book and every name that is valid and not in the
  book: with a phone that is not empty and not made of exactly 10 digits,
  \<^verbatim>\<open>add_contact\<close> raises the \<^verbatim>\<open>ValidationException\<close> of the phone and leaves the book
  with the new record, without phones, under that name; with the empty string as the
  phone, \<^verbatim>\<open>add_contact\<close> raises nothing, returns \<^verbatim>\<open>Contact added.\<close> and leaves the book
  with the same new record.
\<close>

theorem add_contact_invalid_phone_keeps_record:
  assumes "find book n = None" and "isalpha n"
  shows "(p \<noteq> [] \<and> (\<not> isdigit p \<or> length p \<noteq> 10) \<longrightarrow>
           add_contact book n (Some p) =
             (Inl (ValidationException ''Phone number must be 10 digits''),
              add_record book \<lparr>name = n, phones = [], birthday = None\<rparr>)
           \<and> find (snd (add_contact book n (Some p))) n
               = Some \<lparr>name = n, phones = [], birthday = None\<rparr>)
       \<and> add_contact book n (Some []) =
           (Inr ''Contact added.'', add_record book \<lparr>name = n, phones = [], birthday = None\<rparr>)
       \<and> find (snd (add_contact book n (Some []))) n
           = Some \<lparr>name = n, phones = [], birthday = None\<rparr>"
proof -
  have found: "find (add_record book \<lparr>name = n, phones = [], birthday = None\<rparr>) n
      = Some \<lparr>name = n, phones = [], birthday = None\<rparr>"
    by (simp add: find_def add_record_def update_conv')
  have invalid: "add_contact book n (Some p) =
           (Inl (ValidationException ''Phone number must be 10 digits''),
            add_record book \<lparr>name = n, phones = [], birthday = None\<rparr>)"
    if "p \<noteq> []" and "\<not> isdigit p \<or> length p \<noteq> 10"
    using assms that by (simp add: add_contact_def Record_valid add_phone_invalid)
  have empty: "add_contact book n (Some []) =
           (Inr ''Contact added.'', add_record book \<lparr>name = n, phones = [], birthday = None\<rparr>)"
    using assms by (simp add: add_contact_def Record_valid)
  from found invalid empty show ?thesis by simp
qed

theorem add_contact_invalid_phone_keeps_record_witness:
  "find [(''Bob'', \<lparr>name = ''Bob'', phones = [], birthday = None\<rparr>)] ''Anna'' = None
   \<and> isalpha ''Anna'' \<and> ''12345'' \<noteq> [] \<and> length ''12345'' \<noteq> 10
   \<and> add_contact [(''Bob'', \<lparr>name = ''Bob'', phones = [], birthday = None\<rparr>)] ''Anna'' (Some ''12345'') =
       (Inl (ValidationException ''Phone number must be 10 digits''),
        [(''Bob'', \<lparr>name = ''Bob'', phones = [], birthday = None\<rparr>),
         (''Anna'', \<lparr>name = ''Anna'', phones = [], birthday = None\<rparr>)])
   \<and> find (snd (add_contact [(''Bob'', \<lparr>name = ''Bob'', phones = [], birthday = None\<rparr>)] ''Anna''
         (Some ''12345''))) ''Anna''
       = Some \<lparr>name = ''Anna'', phones = [], birthday = None\<rparr>
   \<and> add_contact [(''Bob'', \<lparr>name = ''Bob'', phones = [], birthday = None\<rparr>)] ''Anna'' (Some []) =
       (Inr ''Contact added.'',
        [(''Bob'', \<lparr>name = ''Bob'', phones = [], birthday = None\<rparr>),
         (''Anna'', \<lparr>name = ''Anna'', phones = [], birthday = None\<rparr>)])"
proof -
  let ?B = "[(''Bob'', \<lparr>name = ''Bob'', phones = [], birthday = None\<rparr>)]"
  have h1: "find ?B ''Anna'' = None" by (simp add: find_def)
  have h2: "isalpha ''Anna''" by code_simp
  have h3: "''12345'' \<noteq> [] \<and> (\<not> isdigit ''12345'' \<or> length ''12345'' \<noteq> 10)" by simp
  have upd: "add_record ?B \<lparr>name = ''Anna'', phones = [], birthday = None\<rparr>
      = [(''Bob'', \<lparr>name = ''Bob'', phones = [], birthday = None\<rparr>),
         (''Anna'', \<lparr>name = ''Anna'', phones = [], birthday = None\<rparr>)]"
    by (simp add: add_record_def)
  from add_contact_invalid_phone_keeps_record [OF h1 h2, of "''12345''"] h3
  have "add_contact ?B ''Anna'' (Some ''12345'') =
           (Inl (ValidationException ''Phone number must be 10 digits''),
            add_record ?B \<lparr>name = ''Anna'', phones = [], birthday = None\<rparr>)"
    and "find (snd (add_contact ?B ''Anna'' (Some ''12345''))) ''Anna''
           = Some \<lparr>name = ''Anna'', phones = [], birthday = None\<rparr>"
    and "add_contact ?B ''Anna'' (Some []) =
           (Inr ''Contact added.'', add_record ?B \<lparr>name = ''Anna'', phones = [], birthday = None\<rparr>)"
    by blast+
  with h1 h2 upd show ?thesis by simp
qed

text \<open>
  C7 as stated fails for the empty string: it is not a valid phone, but
  \<^verbatim>\<open>if phone:\<close> skips \<^verbatim>\<open>add_phone\<close> for it, so \<^verbatim>\<open>add_contact\<close> returns
  \<^verbatim>\<open>Contact added.\<close> and raises nothing.
\<close>

theorem add_contact_empty_phone_counterexample:
  "Phone [] = Inl (ValidationException ''Phone number must be 10 digits'')
   \<and> add_contact [] ''Anna'' (Some [])
       = (Inr ''Contact added.'', [(''Anna'', \<lparr>name = ''Anna'', phones = [], birthday = None\<rparr>)])"
  by code_simp

text \<open>
  C8. \<^verbatim>\<open>change_contact\<close> raises \<^verbatim>\<open>KeyError('Contact not found.')\<close> exactly when the
  book has no record for the name, raises nothing else, and leaves the book as it is
  when it raises; when the record exists and none of its phones equals \<^verbatim>\<open>old_phone\<close>,
  it returns \<^verbatim>\<open>Phone number updated.\<close> and the book, and so the phones of the record,
  are unchanged.
\<close>

theorem change_contact_not_found_or_silent:
  "(fst (change_contact book n old_phone new_phone) = Inl (KeyError ''Contact not found.'')
      \<longleftrightarrow> find book n = None)
   \<and> (\<forall>e. fst (change_contact book n old_phone new_phone) = Inl e
        \<longrightarrow> e = KeyError ''Contact not found.'' \<and> snd (change_contact book n old_phone new_phone) = book)
   \<and> (\<forall>r. find book n = Some r \<and> old_phone \<notin> set (phones r)
        \<longrightarrow> change_contact book n old_phone new_phone = (Inr ''Phone number updated.'', book)
            \<and> find (snd (change_contact book n old_phone new_phone)) n = Some r)"
  by (auto simp: change_contact_def find_def edit_phone_def edit_phone_loop_absent update_same
           split: option.splits)

theorem change_contact_not_found_or_silent_witness:
  "find [(''Anna'', \<lparr>name = ''Anna'', phones = [''1234567890''], birthday = None\<rparr>)] ''Bob'' = None
   \<and> fst (change_contact [(''Anna'', \<lparr>name = ''Anna'', phones = [''1234567890''], birthday = None\<rparr>)] ''Bob'' ''1234567890'' ''0000000000'')
       = Inl (KeyError ''Contact not found.'')
   \<and> find [(''Anna'', \<lparr>name = ''Anna'', phones = [''1234567890''], birthday = None\<rparr>)] ''Anna''
       = Some \<lparr>name = ''Anna'', phones = [''1234567890''], birthday = None\<rparr>
   \<and> ''5555555555'' \<notin> set [''1234567890'']
   \<and> change_contact [(''Anna'', \<lparr>name = ''Anna'', phones = [''1234567890''], birthday = None\<rparr>)] ''Anna'' ''5555555555'' ''0000000000''
       = (Inr ''Phone number updated.'', [(''Anna'', \<lparr>name = ''Anna'', phones = [''1234567890''], birthday = None\<rparr>)])"
proof -
  let ?r = "\<lparr>name = ''Anna'', phones = [''1234567890''], birthday = None\<rparr>"
  let ?b = "[(''Anna'', ?r)]"
  have h1: "find ?b ''Bob'' = None" by (simp add: find_def)
  have h2: "find ?b ''Anna'' = Some ?r" by (simp add: find_def)
  have h3: "''5555555555'' \<notin> set (phones ?r)" by simp
  from change_contact_not_found_or_silent [of ?b "''Bob''" "''1234567890''" "''0000000000''"] h1
  have a: "fst (change_contact ?b ''Bob'' ''1234567890'' ''0000000000'') = Inl (KeyError ''Contact not found.'')"
    by blast
  from change_contact_not_found_or_silent [of ?b "''Anna''" "''5555555555''" "''0000000000''"] h2 h3
  have b: "change_contact ?b ''Anna'' ''5555555555'' ''0000000000'' = (Inr ''Phone number updated.'', ?b)"
    by blast
  show ?thesis using a b h1 h2 by simp
qed

text \<open>
  C9. In a book where every key holds a record of that name and the name is a
  non-empty string of letters, this still holds after \<^verbatim>\<open>add_record\<close> (of a record
  whose name was validated, as every record built by \<^verbatim>\<open>Record(...)\<close> is),
  \<^verbatim>\<open>add_contact\<close>, \<^verbatim>\<open>change_contact\<close> and \<^verbatim>\<open>delete\<close>, whether they return or raise.
  The queries \<^verbatim>\<open>find\<close>, \<^verbatim>\<open>show_phone\<close> and \<^verbatim>\<open>get_upcoming_birthdays\<close> assign nothing,
  so they are functions of the book that leave it as it is.
\<close>

theorem store_operations_preserve_invariant:
  assumes "book_inv book"
  shows "(isalpha (name r) \<longrightarrow> book_inv (add_record book r))
       \<and> book_inv (snd (add_contact book n phone))
       \<and> book_inv (snd (change_contact book n old_phone new_phone))
       \<and> book_inv (snd (delete book n))"
proof -
  have 1: "isalpha (name r) \<longrightarrow> book_inv (add_record book r)"
    using assms by (simp add: book_inv_def add_record_def list_all_update)
  have 2: "book_inv (snd (add_contact book n phone))"
  proof (cases "find book n")
    case None
    show ?thesis
    proof (cases "isalpha n")
      case True
      let ?r = "\<lparr>name = n, phones = [], birthday = None\<rparr>"
      have inv1: "book_inv (add_record book ?r)"
        using assms True by (simp add: book_inv_def add_record_def list_all_update)
      have "\<And>r'. add_phone ?r (the phone) = Inr r' \<Longrightarrow> book_inv (AList.update n r' (add_record book ?r))"
        using inv1 True by (auto simp: book_inv_def dest: add_phone_name intro!: list_all_update)
      then show ?thesis
        using None True inv1 by (auto simp: add_contact_def Record_valid split: sum.splits)
    next
      case False
      then show ?thesis using None assms by (simp add: add_contact_def Record_invalid)
    qed
  next
    case (Some r0)
    from book_inv_find [OF assms Some] have nm: "name r0 = n" "isalpha n" by simp_all
    have "\<And>r'. add_phone r0 (the phone) = Inr r' \<Longrightarrow> book_inv (AList.update n r' book)"
      using assms nm by (auto simp: book_inv_def dest: add_phone_name intro!: list_all_update)
    then show ?thesis
      using Some assms by (auto simp: add_contact_def split: sum.splits)
  qed
  have 3: "book_inv (snd (change_contact book n old_phone new_phone))"
  proof (cases "find book n")
    case None
    then show ?thesis using assms by (simp add: change_contact_def)
  next
    case (Some r0)
    from book_inv_find [OF assms Some] have nm: "name r0 = n" "isalpha n" by simp_all
    show ?thesis
      using Some assms nm
      by (auto simp: change_contact_def book_inv_def edit_phone_def intro!: list_all_update)
  qed
  have 4: "book_inv (snd (delete book n))"
    using assms by (auto simp: delete_def book_inv_def list_all_delete split: option.splits)
  from 1 2 3 4 show ?thesis by blast
qed

theorem store_operations_preserve_invariant_witness:
  "book_inv [(''Anna'', \<lparr>name = ''Anna'', phones = [''1234567890''], birthday = None\<rparr>)]
   \<and> isalpha (name \<lparr>name = ''Bob'', phones = [], birthday = None\<rparr>)
   \<and> book_inv (add_record [(''Anna'', \<lparr>name = ''Anna'', phones = [''1234567890''], birthday = None\<rparr>)]
         \<lparr>name = ''Bob'', phones = [], birthday = None\<rparr>)
   \<and> book_inv (snd (add_contact [(''Anna'', \<lparr>name = ''Anna'', phones = [''1234567890''], birthday = None\<rparr>)]
         ''Bob'' (Some ''12345'')))
   \<and> book_inv (snd (change_contact [(''Anna'', \<lparr>name = ''Anna'', phones = [''1234567890''], birthday = None\<rparr>)]
         ''Anna'' ''1234567890'' ''abc''))
   \<and> book_inv (snd (delete [(''Anna'', \<lparr>name = ''Anna'', phones = [''1234567890''], birthday = None\<rparr>)] ''Anna''))"
proof -
  let ?B = "[(''Anna'', \<lparr>name = ''Anna'', phones = [''1234567890''], birthday = None\<rparr>)]"
  let ?bob = "\<lparr>name = ''Bob'', phones = [], birthday = None\<rparr>"
  have inv: "book_inv ?B" by code_simp
  have bob: "isalpha (name ?bob)" by code_simp
  from store_operations_preserve_invariant [OF inv, of ?bob "''Bob''" "Some ''12345''" "''1234567890''" "''abc''"]
    store_operations_preserve_invariant [OF inv, of ?bob "''Anna''" "Some ''12345''" "''1234567890''" "''abc''"]
    inv bob
  show ?thesis by blast
qed

text \<open>
  C10. For a name that \<^verbatim>\<open>validate_name\<close> rejects and that is not in the book,
  \<^verbatim>\<open>add_contact\<close> raises the \<^verbatim>\<open>ValidationException\<close> of the name and leaves the book
  exactly as it was, whatever the phone.
\<close>

theorem add_contact_invalid_name_unchanged:
  "\<not> isalpha n \<Longrightarrow> find book n = None \<Longrightarrow>
     add_contact book n phone = (Inl (ValidationException ''Name must contain only letters''), book)"
  by (simp add: add_contact_def Record_invalid)

theorem add_contact_invalid_name_unchanged_witness:
  "\<not> isalpha ''An1'' \<and> find [] ''An1'' = None
   \<and> add_contact [] ''An1'' (Some ''1234567890'')
       = (Inl (ValidationException ''Name must contain only letters''), [])"
proof -
  have h1: "\<not> isalpha ''An1''" by code_simp
  have h2: "find [] ''An1'' = None" by (simp add: find_def)
  from add_contact_invalid_name_unchanged [OF h1 h2] h1 h2 show ?thesis by simp
qed

end
